theory Spec2Isabelle
  imports Complex_Main "HOL-Library.Char_ord" "HOL-Library.List_Lexorder"
    "HOL-Library.Product_Lexorder"
begin

section \<open>The microplate growth-table converter (bacterial\_growth\_converter.py)\<close>

text \<open>
  The script reads a spreadsheet into a pandas DataFrame (\<open>pd.read_excel\<close>, no header
  promotion), walks it at fixed offsets, builds a list of row dictionaries, sorts it and
  writes a CSV file. The embedding below follows \<open>convert_bacterial_growth_data\<close> and
  \<open>validate_csv_output\<close> statement by statement.

  Modelling decisions:
  \<^item> Exceptions are values: every function that can raise returns \<open>error + 'a\<close>.
  \<^item> A cell of the DataFrame is an arbitrary Python object. The code observes a cell only
    through \<open>pd.notna\<close>, \<open>str\<close> and \<open>float\<close>, so a cell is either missing (\<open>NaN\<close>)
    or is given by what \<open>str\<close> returns on it and what \<open>float\<close> returns on it
    (\<open>None\<close> when \<open>float\<close> raises).
  \<^item> Python floats are represented by the rational numbers they denote, and \<open>*\<close>, \<open>/\<close>
    and \<open>round\<close> are exact. Binary rounding, overflow, infinities and a NaN returned by
    \<open>float\<close> are outside this model: a time of 0.0025 minutes gives the tie 0.15, which
    rounds to 0.2 here while the binary product lies below it and the program writes 0.1;
    a very large time overflows in the program; on a text such as \<open>inf\<close> the program's
    \<open>float\<close> returns a value that no rational denotes. Only the evaluation of the
    example plate, where both arithmetics agree, depends on what the arithmetic returns.
  \<^item> Strings are lists of code points below 256; comparison is by code point, as
    Python compares \<open>str\<close>.
  \<^item> Console output (\<open>print\<close>) and the summary statistics have no effect on the result
    and are left out.
\<close>

subsection \<open>Exceptions, cells and the DataFrame\<close>

datatype error = ReadError | IndexError | ValueError | KeyError | WriteError

datatype cell = NaN | Val string "rat option"

text \<open>\<open>pd.notna(x)\<close>, \<open>str(x)\<close> and \<open>float(x)\<close> on a cell. The source calls
  \<open>str\<close> and \<open>float\<close> only below a \<open>pd.notna\<close> test; \<open>str(nan)\<close> is the
  text \<open>nan\<close>, and \<open>float(nan)\<close>, which is not a rational, is given as a raise here.\<close>

fun notna :: "cell \<Rightarrow> bool" where
  "notna NaN = False"
| "notna (Val s f) = True"

fun py_str :: "cell \<Rightarrow> string" where
  "py_str NaN = ''nan''"
| "py_str (Val s f) = s"

fun py_float :: "cell \<Rightarrow> error + rat" where
  "py_float NaN = Inl ValueError"
| "py_float (Val s None) = Inl ValueError"
| "py_float (Val s (Some x)) = Inr x"

text \<open>A DataFrame read with \<open>header=None\<close> is a rectangle of cells: \<open>df.shape\<close> is
  the number of rows and the width of the widest row, and a row shorter than that
  is filled with missing values. \<open>df.iloc[r, c]\<close> outside the shape raises IndexError.\<close>

type_synonym grid = "cell list list"

definition nrows :: "grid \<Rightarrow> nat" where
  "nrows df = length df"

definition ncols :: "grid \<Rightarrow> nat" where
  "ncols df = fold max (map length df) 0"

definition cell_at :: "grid \<Rightarrow> nat \<Rightarrow> nat \<Rightarrow> cell" where
  "cell_at df r c = (if c < length (df ! r) then df ! r ! c else NaN)"

definition iloc :: "grid \<Rightarrow> nat \<Rightarrow> nat \<Rightarrow> error + cell" where
  "iloc df r c =
     (if r < nrows df \<and> c < ncols df then Inr (cell_at df r c) else Inl IndexError)"

subsection \<open>Strings and rounding\<close>

text \<open>\<open>str.strip()\<close> removes the whitespace code points at both ends.\<close>

definition py_isspace :: "char \<Rightarrow> bool" where
  "py_isspace ch =
     (of_char ch \<in> set [9, 10, 11, 12, 13, 28, 29, 30, 31, 32, 133, 160 :: nat])"

definition strip :: "string \<Rightarrow> string" where
  "strip s = rev (dropWhile py_isspace (rev (dropWhile py_isspace s)))"

text \<open>\<open>round(x, ndigits)\<close>: the nearest multiple of \<open>10 ^ -ndigits\<close>, a tie going to
  the even multiple.\<close>

definition round_half_even :: "rat \<Rightarrow> int" where
  "round_half_even x =
     (let f = \<lfloor>x\<rfloor>; d = x - of_int f
      in if d < 1 / 2 then f
         else if 1 / 2 < d then f + 1
         else if even f then f else f + 1)"

definition py_round :: "rat \<Rightarrow> nat \<Rightarrow> rat" where
  "py_round x ndigits = of_int (round_half_even (x * 10 ^ ndigits)) / 10 ^ ndigits"

subsection \<open>The conversion\<close>

record output_row =
  Well :: string
  Time_s :: rat
  Time_h :: rat
  OD :: rat

definition header_row :: nat where "header_row = 8"
definition data_start_row :: nat where "data_start_row = 9"
definition time_col :: nat where "time_col = 1"
definition data_col_start :: nat where "data_col_start = 2"

text \<open>Lines 64 to 70: the loop over \<open>range(data_col_start, df.shape[1])\<close> that collects
  the well names and leaves at the first missing header cell.\<close>

fun well_names_loop :: "grid \<Rightarrow> nat list \<Rightarrow> error + string list" where
  "well_names_loop df [] = Inr []"
| "well_names_loop df (col_idx # rest) =
     (case iloc df header_row col_idx of
        Inl e \<Rightarrow> Inl e
      | Inr well \<Rightarrow>
          if notna well then
            (case well_names_loop df rest of
               Inl e \<Rightarrow> Inl e
             | Inr names \<Rightarrow> Inr (strip (py_str well) # names))
          else Inr [])"

definition well_names :: "grid \<Rightarrow> error + string list" where
  "well_names df = well_names_loop df [data_col_start ..< ncols df]"

text \<open>Lines 76 to 85: the loop over \<open>range(data_start_row, df.shape[0])\<close> that collects
  the times and leaves at the first cell that is missing or on which \<open>float\<close> raises.\<close>

fun time_minutes_loop :: "grid \<Rightarrow> nat list \<Rightarrow> error + rat list" where
  "time_minutes_loop df [] = Inr []"
| "time_minutes_loop df (row_idx # rest) =
     (case iloc df row_idx time_col of
        Inl e \<Rightarrow> Inl e
      | Inr time_val \<Rightarrow>
          if notna time_val then
            (case py_float time_val of
               Inl e \<Rightarrow> Inr []
             | Inr t \<Rightarrow>
                 (case time_minutes_loop df rest of
                    Inl e \<Rightarrow> Inl e
                  | Inr ts \<Rightarrow> Inr (t # ts)))
          else Inr [])"

definition time_minutes :: "grid \<Rightarrow> error + rat list" where
  "time_minutes df = time_minutes_loop df [data_start_row ..< nrows df]"

text \<open>Lines 103 to 112: the OD values of one column, over \<open>enumerate(time_minutes)\<close>.
  A cell that is missing or on which \<open>float\<close> raises is passed over.\<close>

fun od_values :: "grid \<Rightarrow> nat \<Rightarrow> (nat \<times> rat) list \<Rightarrow> error + rat list" where
  "od_values df col_idx [] = Inr []"
| "od_values df col_idx ((row_idx, time_min) # rest) =
     (let actual_row = data_start_row + row_idx in
      if actual_row < nrows df then
        (case iloc df actual_row col_idx of
           Inl e \<Rightarrow> Inl e
         | Inr od_val \<Rightarrow>
             (case od_values df col_idx rest of
                Inl e \<Rightarrow> Inl e
              | Inr vs \<Rightarrow>
                  if notna od_val then
                    (case py_float od_val of Inl e \<Rightarrow> Inr vs | Inr v \<Rightarrow> Inr (v # vs))
                  else Inr vs))
      else od_values df col_idx rest)"

text \<open>Lines 116 to 124: the rows of one accepted well.\<close>

definition make_row :: "string \<Rightarrow> rat \<Rightarrow> rat \<Rightarrow> output_row" where
  "make_row well_name time_min od_val =
     (let time_s = time_min * 60; time_h = time_min / 60
      in \<lparr>Well = well_name, Time_s = py_round time_s 1, Time_h = py_round time_h 3,
          OD = py_round od_val 4\<rparr>)"

definition well_rows :: "string \<Rightarrow> rat list \<Rightarrow> rat list \<Rightarrow> output_row list" where
  "well_rows well_name tm ods =
     (if length ods = length tm
      then map (\<lambda>(time_min, od_val). make_row well_name time_min od_val) (zip tm ods)
      else [])"

text \<open>Lines 96 to 127: the loop over \<open>enumerate(well_names)\<close>.\<close>

fun wells_loop :: "grid \<Rightarrow> rat list \<Rightarrow> (nat \<times> string) list \<Rightarrow> error + output_row list" where
  "wells_loop df tm [] = Inr []"
| "wells_loop df tm ((well_idx, well_name) # rest) =
     (let col_idx = data_col_start + well_idx in
      if col_idx \<ge> ncols df then Inr []
      else
        (case od_values df col_idx (enumerate 0 tm) of
           Inl e \<Rightarrow> Inl e
         | Inr ods \<Rightarrow>
             (case wells_loop df tm rest of
                Inl e \<Rightarrow> Inl e
              | Inr later \<Rightarrow> Inr (well_rows well_name tm ods @ later))))"

text \<open>\<open>output_data\<close> as it stands when line 129 is reached.\<close>

definition output_data :: "grid \<Rightarrow> error + output_row list" where
  "output_data df =
     (case well_names df of
        Inl e \<Rightarrow> Inl e
      | Inr names \<Rightarrow>
          (case time_minutes df of
             Inl e \<Rightarrow> Inl e
           | Inr tm \<Rightarrow> wells_loop df tm (enumerate 0 names)))"

text \<open>\<open>sort_values(['Well', 'Time_s'])\<close>: pandas sorts on several columns with a stable
  lexicographic sort.\<close>

definition sort_key_of :: "output_row \<Rightarrow> string \<times> rat" where
  "sort_key_of r = (Well r, Time_s r)"

definition sort_values :: "output_row list \<Rightarrow> output_row list" where
  "sort_values rows = sort_key sort_key_of rows"

text \<open>Lines 54 to 136: from the DataFrame to the sorted \<open>output_df\<close>.\<close>

definition convert_frame :: "grid \<Rightarrow> error + output_row list" where
  "convert_frame df =
     (case output_data df of
        Inl e \<Rightarrow> Inl e
      | Inr out \<Rightarrow> if out = [] then Inl ValueError else Inr (sort_values out))"

text \<open>The whole of \<open>convert_bacterial_growth_data\<close>. Its two effects are parameters:
  \<open>read_excel\<close> is what \<open>pd.read_excel\<close> gave (a DataFrame or a raise) and
  \<open>to_csv\<close> tells whether writing the rows raises. The result is the returned flag
  and the rows that were written, if any. The \<open>try\<close> ... \<open>except Exception\<close> turns
  every raise into \<open>False\<close>.\<close>

definition convert_bacterial_growth_data ::
    "error + grid \<Rightarrow> (output_row list \<Rightarrow> error + unit) \<Rightarrow> bool \<times> output_row list option" where
  "convert_bacterial_growth_data read_excel to_csv =
     (case read_excel of
        Inl e \<Rightarrow> (False, None)
      | Inr df \<Rightarrow>
          (case convert_frame df of
             Inl e \<Rightarrow> (False, None)
           | Inr output_df \<Rightarrow>
               (case to_csv output_df of
                  Inl e \<Rightarrow> (False, None)
                | Inr u \<Rightarrow> (True, Some output_df))))"

subsection \<open>The validation of the written file\<close>

text \<open>\<open>validate_csv_output\<close> looks only at the column names of the DataFrame that
  \<open>pd.read_csv\<close> returns and at the dtype pandas gave each column, so the DataFrame
  is the list of its columns, each with its dtype (\<open>read_csv\<close> makes the names
  distinct). \<open>df[col]\<close> on an absent column raises KeyError.\<close>

datatype dtype = Int64 | Float64 | Bool | Object

type_synonym csv_frame = "(string \<times> dtype) list"

fun is_numeric_dtype :: "dtype \<Rightarrow> bool" where
  "is_numeric_dtype Object = False"
| "is_numeric_dtype d = True"

definition columns :: "csv_frame \<Rightarrow> string list" where
  "columns df = map fst df"

definition column_dtype :: "csv_frame \<Rightarrow> string \<Rightarrow> error + dtype" where
  "column_dtype df col = (case map_of df col of None \<Rightarrow> Inl KeyError | Some d \<Rightarrow> Inr d)"

definition required_columns :: "string list" where
  "required_columns = [''Well'', ''Time_s'', ''Time_h'', ''OD'']"

definition numeric_check :: "csv_frame \<Rightarrow> string \<Rightarrow> error + bool" where
  "numeric_check df col =
     (case column_dtype df col of Inl e \<Rightarrow> Inl e | Inr d \<Rightarrow> Inr (is_numeric_dtype d))"

definition validate_csv_output :: "error + csv_frame \<Rightarrow> bool" where
  "validate_csv_output read_csv =
     (case read_csv of
        Inl e \<Rightarrow> False
      | Inr df \<Rightarrow>
          (let missing_columns = filter (\<lambda>col. col \<notin> set (columns df)) required_columns in
           if missing_columns \<noteq> [] then False
           else
             (case numeric_check df ''Time_s'' of
                Inl e \<Rightarrow> False
              | Inr ok_s \<Rightarrow>
                  if \<not> ok_s then False
                  else
                    (case numeric_check df ''Time_h'' of
                       Inl e \<Rightarrow> False
                     | Inr ok_h \<Rightarrow>
                         if \<not> ok_h then False
                         else
                           (case numeric_check df ''OD'' of
                              Inl e \<Rightarrow> False
                            | Inr ok_od \<Rightarrow> if \<not> ok_od then False else True)))))"

subsection \<open>The vocabulary of the properties\<close>

text \<open>What the loops make of one cell: the number \<open>float\<close> returns when the cell
  is not missing and \<open>float\<close> does not raise, nothing otherwise.\<close>

definition parsed :: "cell \<Rightarrow> rat option" where
  "parsed c =
     (if notna c then (case py_float c of Inl e \<Rightarrow> None | Inr x \<Rightarrow> Some x) else None)"

definition parseable :: "cell \<Rightarrow> bool" where
  "parseable c = (parsed c \<noteq> None)"

text \<open>The header cells from column 2 on, the cells of the time column from row 9 on,
  and the first \<open>T\<close> data cells of the column of the well with index \<open>well_idx\<close>.\<close>

definition header_cells :: "grid \<Rightarrow> cell list" where
  "header_cells df = map (cell_at df header_row) [data_col_start ..< ncols df]"

definition time_cells :: "grid \<Rightarrow> cell list" where
  "time_cells df = map (\<lambda>r. cell_at df r time_col) [data_start_row ..< nrows df]"

definition od_cells :: "grid \<Rightarrow> nat \<Rightarrow> nat \<Rightarrow> cell list" where
  "od_cells df well_idx T =
     map (\<lambda>i. cell_at df (data_start_row + i) (data_col_start + well_idx)) [0 ..< T]"

text \<open>The values that the loop over a column keeps: those of its parseable cells, in
  row order.\<close>

definition kept :: "grid \<Rightarrow> nat \<Rightarrow> nat \<Rightarrow> rat list" where
  "kept df well_idx T = map the (filter (\<lambda>v. v \<noteq> None) (map parsed (od_cells df well_idx T)))"

text \<open>The rows that one pass of the loop over the wells appends to \<open>output_data\<close>.\<close>

definition contribution :: "grid \<Rightarrow> rat list \<Rightarrow> nat \<times> string \<Rightarrow> output_row list" where
  "contribution df tm p =
     (case od_values df (data_col_start + fst p) (enumerate 0 tm) of
        Inl e \<Rightarrow> []
      | Inr ods \<Rightarrow> well_rows (snd p) tm ods)"

text \<open>Whether the well with index \<open>well_idx\<close> passes the length test of line 115, and
  how many rows the wells before it have appended to \<open>output_data\<close> by then: as many
  as there are timepoints for each of them that passes the test.\<close>

definition accepted :: "grid \<Rightarrow> rat list \<Rightarrow> nat \<Rightarrow> bool" where
  "accepted df tm well_idx =
     (case od_values df (data_col_start + well_idx) (enumerate 0 tm) of
        Inl e \<Rightarrow> False
      | Inr ods \<Rightarrow> length ods = length tm)"

definition row_offset :: "grid \<Rightarrow> rat list \<Rightarrow> nat \<Rightarrow> nat" where
  "row_offset df tm well_idx =
     sum_list (map (\<lambda>j. if accepted df tm j then length tm else 0) [0 ..< well_idx])"

subsection \<open>The example grid\<close>

definition blank_row :: "cell list" where
  "blank_row = [NaN, NaN, NaN, NaN]"

definition example_grid :: grid where
  "example_grid =
     replicate 8 blank_row @
     [[NaN, Val ''Time'' None, Val ''A1'' None, Val ''A2'' None],
      [NaN, Val ''0.0'' (Some 0), Val ''0.1'' (Some (1 / 10)), Val ''0.11'' (Some (11 / 100))],
      [NaN, Val ''30.0'' (Some 30), Val ''0.15'' (Some (15 / 100)), Val ''0.16'' (Some (16 / 100))],
      [NaN, Val ''60.0'' (Some 60), Val ''0.2'' (Some (2 / 10)), Val ''0.21'' (Some (21 / 100))]]"

definition example_rows :: "output_row list" where
  "example_rows =
     [\<lparr>Well = ''A1'', Time_s = 0, Time_h = 0, OD = 1 / 10\<rparr>,
      \<lparr>Well = ''A1'', Time_s = 1800, Time_h = 1 / 2, OD = 15 / 100\<rparr>,
      \<lparr>Well = ''A1'', Time_s = 3600, Time_h = 1, OD = 2 / 10\<rparr>,
      \<lparr>Well = ''A2'', Time_s = 0, Time_h = 0, OD = 11 / 100\<rparr>,
      \<lparr>Well = ''A2'', Time_s = 1800, Time_h = 1 / 2, OD = 16 / 100\<rparr>,
      \<lparr>Well = ''A2'', Time_s = 3600, Time_h = 1, OD = 21 / 100\<rparr>]"

text \<open>The same plate with a missing reading in the second data row of well A2.\<close>

definition gap_grid :: grid where
  "gap_grid =
     replicate 8 blank_row @
     [[NaN, Val ''Time'' None, Val ''A1'' None, Val ''A2'' None],
      [NaN, Val ''0.0'' (Some 0), Val ''0.1'' (Some (1 / 10)), Val ''0.11'' (Some (11 / 100))],
      [NaN, Val ''30.0'' (Some 30), Val ''0.15'' (Some (15 / 100)), NaN],
      [NaN, Val ''60.0'' (Some 60), Val ''0.2'' (Some (2 / 10)), Val ''0.21'' (Some (21 / 100))]]"

text \<open>A plate whose header names two columns alike, with one reading each.\<close>

definition twin_grid :: grid where
  "twin_grid =
     replicate 8 blank_row @
     [[NaN, Val ''Time'' None, Val ''A1'' None, Val ''A1'' None],
      [NaN, Val ''0.0'' (Some 0), Val ''0.1'' (Some (1 / 10)), Val ''0.11'' (Some (11 / 100))]]"

definition twin_rows :: "output_row list" where
  "twin_rows =
     [\<lparr>Well = ''A1'', Time_s = 0, Time_h = 0, OD = 1 / 10\<rparr>,
      \<lparr>Well = ''A1'', Time_s = 0, Time_h = 0, OD = 11 / 100\<rparr>]"

text \<open>A plate with a blank cell in the third row of the time column and a time after it.\<close>

definition late_time_grid :: grid where
  "late_time_grid =
     replicate 8 blank_row @
     [[NaN, Val ''Time'' None, Val ''A1'' None],
      [NaN, Val ''0.0'' (Some 0), Val ''0.1'' (Some (1 / 10))],
      [NaN, Val ''30.0'' (Some 30), Val ''0.15'' (Some (15 / 100))],
      [NaN, NaN, Val ''0.2'' (Some (2 / 10))],
      [NaN, Val ''90.0'' (Some 90), Val ''0.25'' (Some (25 / 100))]]"

text \<open>A written file as \<open>read_csv\<close> types it.\<close>

definition example_csv :: csv_frame where
  "example_csv = [(''Well'', Object), (''Time_s'', Float64), (''Time_h'', Float64), (''OD'', Float64)]"


section \<open>The loops in closed form\<close>

lemma parsed_NaN [simp]: "parsed NaN = None"
  by (simp add: parsed_def)

lemma parsed_Val [simp]: "parsed (Val s f) = f"
  by (cases f) (simp_all add: parsed_def)

lemma map_Some_the_takeWhile:
  "map Some (map the (takeWhile (\<lambda>v. v \<noteq> None) vs)) = takeWhile (\<lambda>v. v \<noteq> None) vs"
  by (induction vs) auto

lemma map_Some_the_filter:
  "map Some (map the (filter (\<lambda>v. v \<noteq> None) vs)) = filter (\<lambda>v. v \<noteq> None) vs"
  by (induction vs) auto

lemma well_names_loop_eq:
  assumes "header_row < nrows df" "\<forall>c \<in> set cs. c < ncols df"
  shows "well_names_loop df cs =
           Inr (map (\<lambda>c. strip (py_str c)) (takeWhile notna (map (cell_at df header_row) cs)))"
  using assms by (induction cs) (auto simp: iloc_def)

lemma time_minutes_loop_eq:
  assumes "time_col < ncols df" "\<forall>r \<in> set rs. r < nrows df"
  shows "time_minutes_loop df rs =
           Inr (map the (takeWhile (\<lambda>v. v \<noteq> None) (map (\<lambda>r. parsed (cell_at df r time_col)) rs)))"
  using assms
proof (induction rs)
  case Nil
  then show ?case by simp
next
  case (Cons r rs)
  show ?case
  proof (cases "cell_at df r time_col")
    case NaN
    with Cons.prems show ?thesis by (simp add: iloc_def)
  next
    case (Val s f)
    with Cons show ?thesis by (cases f) (simp_all add: iloc_def)
  qed
qed

lemma od_values_eq:
  assumes "col < ncols df"
    and "data_start_row + n + length tm \<le> max (data_start_row + n) (nrows df)"
  shows "od_values df col (enumerate n tm) =
           Inr (map the (filter (\<lambda>v. v \<noteq> None)
                  (map (\<lambda>i. parsed (cell_at df (data_start_row + i) col)) [n ..< n + length tm])))"
  using assms
proof (induction tm arbitrary: n)
  case Nil
  then show ?case by simp
next
  case (Cons t tm)
  have step: "[n ..< n + length (t # tm)] = n # [Suc n ..< Suc n + length tm]"
    by (simp add: upt_rec)
  have row: "data_start_row + n < nrows df"
    using Cons.prems by simp
  have rest: "od_values df col (enumerate (Suc n) tm) =
           Inr (map the (filter (\<lambda>v. v \<noteq> None)
                  (map (\<lambda>i. parsed (cell_at df (data_start_row + i) col)) [Suc n ..< Suc n + length tm])))"
    using Cons.prems by (intro Cons.IH) simp_all
  show ?case
  proof (cases "cell_at df (data_start_row + n) col")
    case NaN
    with Cons.prems(1) row rest show ?thesis unfolding step by (simp add: iloc_def)
  next
    case (Val s f)
    with Cons.prems(1) row rest show ?thesis unfolding step by (cases f) (simp_all add: iloc_def)
  qed
qed

lemma well_names_eq:
  assumes "header_row < nrows df"
  shows "well_names df = Inr (map (\<lambda>c. strip (py_str c)) (takeWhile notna (header_cells df)))"
  unfolding well_names_def header_cells_def using assms
  by (intro well_names_loop_eq) simp_all

lemma time_minutes_eq:
  assumes "time_col < ncols df"
  shows "time_minutes df =
           Inr (map the (takeWhile (\<lambda>v. v \<noteq> None) (map parsed (time_cells df))))"
  unfolding time_minutes_def time_cells_def map_map comp_def using assms
  by (intro time_minutes_loop_eq) simp_all

lemma well_names_length:
  assumes "well_names df = Inr names"
  shows "data_col_start + length names \<le> max data_col_start (ncols df)"
proof (cases "header_row < nrows df")
  case True
  with assms have "length names = length (takeWhile notna (header_cells df))"
    by (auto simp: well_names_eq)
  also have "\<dots> \<le> length (header_cells df)" by (rule length_takeWhile_le)
  finally show ?thesis by (simp add: header_cells_def)
next
  case False
  show ?thesis
  proof (cases "[data_col_start ..< ncols df]")
    case Nil
    with assms show ?thesis by (simp add: well_names_def)
  next
    case (Cons c cs)
    with assms False show ?thesis by (simp add: well_names_def iloc_def)
  qed
qed

lemma time_minutes_length:
  assumes "time_minutes df = Inr tm"
  shows "data_start_row + length tm \<le> max data_start_row (nrows df)"
proof (cases "time_col < ncols df")
  case True
  with assms have "length tm = length (takeWhile (\<lambda>v. v \<noteq> None) (map parsed (time_cells df)))"
    by (auto simp: time_minutes_eq)
  also have "\<dots> \<le> length (map parsed (time_cells df))" by (rule length_takeWhile_le)
  finally show ?thesis by (simp add: time_cells_def)
next
  case False
  show ?thesis
  proof (cases "[data_start_row ..< nrows df]")
    case Nil
    with assms show ?thesis by (simp add: time_minutes_def)
  next
    case (Cons c cs)
    with assms False show ?thesis by (simp add: time_minutes_def iloc_def)
  qed
qed

lemma od_values_kept:
  assumes "data_col_start + k < ncols df"
    and "data_start_row + length tm \<le> max data_start_row (nrows df)"
  shows "od_values df (data_col_start + k) (enumerate 0 tm) = Inr (kept df k (length tm))"
  using od_values_eq [of "data_col_start + k" df 0 tm] assms
  by (simp add: kept_def od_cells_def comp_def)

lemma contribution_kept:
  assumes "data_col_start + k < ncols df"
    and "data_start_row + length tm \<le> max data_start_row (nrows df)"
  shows "contribution df tm (k, w) = well_rows w tm (kept df k (length tm))"
  by (simp add: contribution_def od_values_kept [OF assms])

lemma wells_loop_eq:
  assumes "data_col_start + n + length names \<le> max (data_col_start + n) (ncols df)"
    and "data_start_row + length tm \<le> max data_start_row (nrows df)"
  shows "wells_loop df tm (enumerate n names) =
           Inr (concat (map (contribution df tm) (enumerate n names)))"
  using assms(1)
proof (induction names arbitrary: n)
  case Nil
  then show ?case by simp
next
  case (Cons w names)
  have col: "data_col_start + n < ncols df" using Cons.prems by simp
  have od: "od_values df (data_col_start + n) (enumerate 0 tm) = Inr (kept df n (length tm))"
    using col assms(2) by (rule od_values_kept)
  have here: "contribution df tm (n, w) = well_rows w tm (kept df n (length tm))"
    using col assms(2) by (rule contribution_kept)
  have rest: "wells_loop df tm (enumerate (Suc n) names) =
           Inr (concat (map (contribution df tm) (enumerate (Suc n) names)))"
    using Cons.prems by (intro Cons.IH) simp
  show ?case using col by (simp add: od rest here)
qed

lemma output_data_eq:
  assumes "well_names df = Inr names" "time_minutes df = Inr tm"
  shows "output_data df = Inr (concat (map (contribution df tm) (enumerate 0 names)))"
proof -
  have "wells_loop df tm (enumerate 0 names) =
          Inr (concat (map (contribution df tm) (enumerate 0 names)))"
    using well_names_length [OF assms(1)] time_minutes_length [OF assms(2)]
    by (intro wells_loop_eq) simp_all
  then show ?thesis by (simp add: output_data_def assms)
qed


lemma parseable_iff: "(\<exists>y. parsed c = Some y) \<longleftrightarrow> parseable c"
  by (simp add: parseable_def)

lemma kept_length: "length (kept df k T) = length (filter parseable (od_cells df k T))"
  by (simp add: kept_def filter_map comp_def parseable_iff)

lemma length_od_cells [simp]: "length (od_cells df k T) = T"
  by (simp add: od_cells_def)

lemma nth_od_cells:
  "i < T \<Longrightarrow> od_cells df k T ! i = cell_at df (data_start_row + i) (data_col_start + k)"
  by (simp add: od_cells_def)

lemma kept_complete_nth:
  assumes "length (kept df k T) = T" "i < T"
  shows "parsed (cell_at df (data_start_row + i) (data_col_start + k)) = Some (kept df k T ! i)"
proof -
  have all: "filter parseable (od_cells df k T) = od_cells df k T"
    using assms(1) by (metis kept_length length_od_cells length_filter_less filter_id_conv nat_less_le)
  then have same: "filter (\<lambda>v. v \<noteq> None) (map parsed (od_cells df k T)) = map parsed (od_cells df k T)"
    by (simp add: filter_map comp_def parseable_iff)
  have ok: "parseable (od_cells df k T ! i)"
    using all assms(2) by (metis filter_id_conv length_od_cells nth_mem)
  have "kept df k T = map the (map parsed (od_cells df k T))"
    unfolding kept_def same ..
  then have "kept df k T ! i = the (parsed (od_cells df k T ! i))"
    using assms(2) by simp
  with ok show ?thesis
    using assms(2) by (auto simp: parseable_def nth_od_cells)
qed

lemma kept_all_parseable:
  assumes "\<forall>i<T. parseable (cell_at df (data_start_row + i) (data_col_start + k))"
  shows "length (kept df k T) = T"
proof -
  have "\<forall>c \<in> set (od_cells df k T). parseable c"
    using assms by (auto simp: od_cells_def)
  then have "filter parseable (od_cells df k T) = od_cells df k T"
    by (simp add: filter_id_conv)
  then show ?thesis by (simp add: kept_length)
qed

lemma length_well_rows:
  "length (well_rows w tm ods) = (if length ods = length tm then length tm else 0)"
  by (simp add: well_rows_def)

lemma nth_well_rows:
  "length ods = length tm \<Longrightarrow> i < length tm \<Longrightarrow>
     well_rows w tm ods ! i = make_row w (tm ! i) (ods ! i)"
  by (simp add: well_rows_def)

lemma well_rows_short: "length ods \<noteq> length tm \<Longrightarrow> well_rows w tm ods = []"
  by (simp add: well_rows_def)

lemma index_in_range:
  assumes "well_names df = Inr names" "k < length names"
  shows "data_col_start + k < ncols df"
  using well_names_length [OF assms(1)] assms(2) by simp

lemma contribution_at:
  assumes "well_names df = Inr names" "time_minutes df = Inr tm" "k < length names"
  shows "contribution df tm (k, w) = well_rows w tm (kept df k (length tm))"
  using index_in_range [OF assms(1,3)] time_minutes_length [OF assms(2)]
  by (rule contribution_kept)

lemma od_values_at:
  assumes "well_names df = Inr names" "time_minutes df = Inr tm" "k < length names"
  shows "od_values df (data_col_start + k) (enumerate 0 tm) = Inr (kept df k (length tm))"
  using index_in_range [OF assms(1,3)] time_minutes_length [OF assms(2)]
  by (rule od_values_kept)

lemma length_concat_const:
  assumes "\<forall>x \<in> set xs. length (f x) = n"
  shows "length (concat (map f xs)) = length xs * n"
  using assms by (induction xs) simp_all

lemma convert_frame_nonempty:
  assumes "output_data df = Inr out" "out \<noteq> []"
  shows "convert_frame df = Inr (sort_values out)"
  using assms by (simp add: convert_frame_def)

lemma length_sort_values [simp]: "length (sort_values rows) = length rows"
  by (simp add: sort_values_def)

lemma all_below_iff: "(\<forall>k<n. P k) \<longleftrightarrow> list_all P [0 ..< n]"
  by (auto simp: list_all_iff)

lemma concat_map_filter_empty:
  assumes "\<forall>x \<in> set xs. \<not> P x \<longrightarrow> f x = []"
  shows "concat (map f (filter P xs)) = concat (map f xs)"
  using assms by (induction xs) simp_all

lemma concat_map_nonempty:
  assumes "x \<in> set xs" "f x \<noteq> []"
  shows "concat (map f xs) \<noteq> []"
  using assms by auto

lemma length_time_cells: "length (time_cells df) = nrows df - data_start_row"
  by (simp add: time_cells_def)

lemma time_minutes_without_column:
  assumes "\<not> time_col < ncols df" "time_minutes df = Inr ts"
  shows "ts = [] \<and> time_cells df = []"
proof (cases "[data_start_row ..< nrows df]")
  case Nil
  with assms(2) show ?thesis by (simp add: time_minutes_def time_cells_def)
next
  case (Cons r rs)
  with assms show ?thesis by (simp add: time_minutes_def iloc_def)
qed

lemma sort_key_of_make_row:
  "sort_key_of (make_row w t v) = (w, py_round (t * 60) 1)"
  by (simp add: sort_key_of_def make_row_def)

lemma keys_well_rows:
  "map sort_key_of (well_rows w tm ods) =
     (if length ods = length tm then map (\<lambda>t. (w, py_round (t * 60) 1)) tm else [])"
proof (cases "length ods = length tm")
  case True
  have "map sort_key_of (well_rows w tm ods) =
          map ((\<lambda>t. (w, py_round (t * 60) 1)) \<circ> fst) (zip tm ods)"
    using True by (simp add: well_rows_def sort_key_of_make_row comp_def case_prod_unfold)
  also have "\<dots> = map (\<lambda>t. (w, py_round (t * 60) 1)) (map fst (zip tm ods))"
    by simp
  also have "map fst (zip tm ods) = tm"
    using True by simp
  finally show ?thesis using True by simp
next
  case False
  then show ?thesis by (simp add: well_rows_def)
qed

lemma Well_well_rows: "r \<in> set (well_rows w tm ods) \<Longrightarrow> Well r = w"
  by (auto simp: well_rows_def make_row_def split: if_splits)

lemma keys_contribution:
  assumes "distinct (map (\<lambda>t. py_round (t * 60) 1) tm)"
  shows "distinct (map sort_key_of (contribution df tm p)) \<and>
         (\<forall>r \<in> set (contribution df tm p). Well r = snd p)"
proof (cases "od_values df (data_col_start + fst p) (enumerate 0 tm)")
  case (Inl e)
  then show ?thesis by (simp add: contribution_def)
next
  case (Inr ods)
  then have c: "contribution df tm p = well_rows (snd p) tm ods"
    by (simp add: contribution_def)
  have "distinct (map (\<lambda>t. (snd p, py_round (t * 60) 1)) tm)"
    using assms by (simp add: distinct_map inj_on_def)
  then have "distinct (map sort_key_of (well_rows (snd p) tm ods))"
    unfolding keys_well_rows by simp
  then show ?thesis
    unfolding c by (simp add: Well_well_rows)
qed

lemma distinct_keys_concat:
  assumes "distinct (map snd ps)"
    and "\<forall>p \<in> set ps. distinct (map sort_key_of (f p)) \<and> (\<forall>r \<in> set (f p). Well r = snd p)"
  shows "distinct (map sort_key_of (concat (map f ps)))"
  using assms
proof (induction ps)
  case Nil
  then show ?case by simp
next
  case (Cons p ps)
  have rest: "distinct (map sort_key_of (concat (map f ps)))"
    using Cons by simp
  have here: "distinct (map sort_key_of (f p))"
    using Cons.prems by simp
  have apart: "sort_key_of a \<noteq> sort_key_of b"
    if a: "a \<in> set (f p)" and q: "q \<in> set ps" and b: "b \<in> set (f q)" for a b q
  proof -
    have "Well a = snd p" using Cons.prems(2) a by simp
    moreover have "Well b = snd q" using Cons.prems(2) q b by simp
    moreover have "snd p \<noteq> snd q" using Cons.prems(1) q by auto
    ultimately show ?thesis by (simp add: sort_key_of_def)
  qed
  have "set (map sort_key_of (f p)) \<inter> set (map sort_key_of (concat (map f ps))) = {}"
    using apart by fastforce
  with rest here show ?case by simp
qed

lemma distinct_keys_sort_values:
  "distinct (map sort_key_of (sort_values rows)) = distinct (map sort_key_of rows)"
  by (simp add: sort_values_def distinct_map)

lemma key_order:
  "sort_key_of a \<le> sort_key_of b \<longleftrightarrow>
     Well a < Well b \<or> (Well a = Well b \<and> Time_s a \<le> Time_s b)"
  by (auto simp: sort_key_of_def less_eq_prod_def)

lemma sorted_sort_values:
  "sorted_wrt (\<lambda>a b. Well a < Well b \<or> (Well a = Well b \<and> Time_s a \<le> Time_s b))
     (sort_values rows)"
proof -
  have "sorted (map sort_key_of (sort_values rows))"
    by (simp add: sort_values_def)
  then show ?thesis
    by (simp add: sorted_map key_order)
qed

lemma convert_frame_sorted:
  assumes "output_data df = Inr out" "convert_frame df = Inr rows"
  shows "rows = sort_values out"
  using assms by (simp add: convert_frame_def split: if_splits)

lemma wells_loop_no_times: "wells_loop df [] ps = Inr []"
proof (induction ps)
  case Nil
  then show ?case by simp
next
  case (Cons p ps)
  then show ?case by (cases p) (simp add: well_rows_def Let_def)
qed

lemma output_data_no_wells:
  assumes "\<forall>x xs. well_names df \<noteq> Inr (x # xs)"
  shows "\<forall>r rs. output_data df \<noteq> Inr (r # rs)"
proof (cases "well_names df")
  case (Inl e)
  then show ?thesis by (simp add: output_data_def)
next
  case (Inr names)
  with assms have "names = []" by (cases names) auto
  with Inr show ?thesis by (simp add: output_data_def split: sum.splits)
qed

lemma output_data_no_times:
  assumes "\<forall>t ts. time_minutes df \<noteq> Inr (t # ts)"
  shows "\<forall>r rs. output_data df \<noteq> Inr (r # rs)"
proof (cases "time_minutes df")
  case (Inl e)
  then show ?thesis by (simp add: output_data_def split: sum.splits)
next
  case (Inr tm)
  with assms have "tm = []" by (cases tm) auto
  with Inr show ?thesis by (simp add: output_data_def wells_loop_no_times split: sum.splits)
qed

lemma convert_frame_no_rows:
  assumes "\<forall>r rs. output_data df \<noteq> Inr (r # rs)"
  shows "\<exists>e. convert_frame df = Inl e"
proof (cases "output_data df")
  case (Inl e)
  then show ?thesis by (simp add: convert_frame_def)
next
  case (Inr out)
  with assms have "out = []" by (cases out) auto
  with Inr show ?thesis by (simp add: convert_frame_def)
qed

lemma sort_values_not_empty: "out \<noteq> [] \<Longrightarrow> sort_values out \<noteq> []"
  by (metis length_sort_values length_0_conv)

lemma convert_frame_not_empty: "convert_frame df \<noteq> Inr []"
  by (auto simp: convert_frame_def sort_values_not_empty split: sum.splits if_splits)

lemma convert_failure:
  assumes "convert_frame df = Inl e"
  shows "convert_bacterial_growth_data (Inr df) to_csv = (False, None)"
  using assms by (simp add: convert_bacterial_growth_data_def)

lemma required_present:
  "(filter (\<lambda>col. col \<notin> set (columns df)) required_columns = []) \<longleftrightarrow>
     (\<forall>col \<in> set required_columns. col \<in> set (columns df))"
  by (simp add: filter_empty_conv)

lemma numeric_check_eq:
  "col \<in> set (columns df) \<Longrightarrow>
     \<exists>d. map_of df col = Some d \<and> numeric_check df col = Inr (is_numeric_dtype d)"
  by (cases "map_of df col")
     (auto simp: numeric_check_def column_dtype_def columns_def map_of_eq_None_iff)

lemma nth_concat_map:
  assumes "k < length xs" "i < length (f (xs ! k))"
  shows "concat (map f xs) ! (sum_list (map (\<lambda>x. length (f x)) (take k xs)) + i) = f (xs ! k) ! i"
  using assms
proof (induction xs arbitrary: k)
  case Nil
  then show ?case by simp
next
  case (Cons x xs)
  show ?case
  proof (cases k)
    case 0
    with Cons.prems show ?thesis by (simp add: nth_append)
  next
    case (Suc j)
    with Cons.prems have "concat (map f xs) ! (sum_list (map (\<lambda>x. length (f x)) (take j xs)) + i) = f (xs ! j) ! i"
      by (intro Cons.IH) simp_all
    then show ?thesis
      using Suc by (simp add: nth_append add.assoc)
  qed
qed

lemma length_concat_ge:
  assumes "k < length xs"
  shows "sum_list (map (\<lambda>x. length (f x)) (take k xs)) + length (f (xs ! k)) \<le> length (concat (map f xs))"
  using assms
proof (induction xs arbitrary: k)
  case Nil
  then show ?case by simp
next
  case (Cons x xs)
  show ?case
  proof (cases k)
    case 0
    then show ?thesis by simp
  next
    case (Suc j)
    with Cons.prems have "sum_list (map (\<lambda>x. length (f x)) (take j xs)) + length (f (xs ! j))
        \<le> length (concat (map f xs))"
      by (intro Cons.IH) simp
    then show ?thesis using Suc by simp
  qed
qed

lemma length_contribution:
  "length (contribution df tm p) = (if accepted df tm (fst p) then length tm else 0)"
  by (cases "od_values df (data_col_start + fst p) (enumerate 0 tm)")
     (simp_all add: contribution_def accepted_def length_well_rows)

lemma row_offset_eq:
  assumes "k \<le> length names"
  shows "sum_list (map (\<lambda>p. length (contribution df tm p)) (take k (enumerate 0 names))) =
           row_offset df tm k"
proof -
  have "map (\<lambda>p. length (contribution df tm p)) (take k (enumerate 0 names)) =
          map (\<lambda>j. if accepted df tm j then length tm else 0) (map fst (take k (enumerate 0 names)))"
    by (simp add: length_contribution comp_def)
  also have "map fst (take k (enumerate 0 names)) = take k [0 ..< length names]"
    by (simp add: take_map [symmetric])
  also have "\<dots> = [0 ..< k]"
    using assms by (simp add: take_upt)
  finally show ?thesis by (simp add: row_offset_def)
qed

lemma time_minutes_nth:
  assumes "time_minutes df = Inr tm" "i < length tm"
  shows "parsed (cell_at df (data_start_row + i) time_col) = Some (tm ! i)"
proof (cases "time_col < ncols df")
  case False
  from time_minutes_without_column [OF False assms(1)] assms(2) show ?thesis by simp
next
  case True
  let ?vs = "map parsed (time_cells df)"
  let ?P = "\<lambda>v::rat option. v \<noteq> None"
  have "tm = map the (takeWhile ?P ?vs)"
    using assms(1) True by (simp add: time_minutes_eq)
  then have pre: "map Some tm = takeWhile ?P ?vs"
    by (simp only: map_Some_the_takeWhile)
  then have len: "length tm = length (takeWhile ?P ?vs)"
    by (metis length_map)
  have "length (takeWhile ?P ?vs) \<le> length ?vs" by (rule length_takeWhile_le)
  then have inside: "i < length (time_cells df)" using assms(2) len by simp
  have "map Some tm = take (length tm) ?vs"
    using pre len by (simp only: takeWhile_eq_take [symmetric])
  then have "map Some tm ! i = take (length tm) ?vs ! i" by simp
  then have "Some (tm ! i) = ?vs ! i" using assms(2) by simp
  also have "\<dots> = parsed (time_cells df ! i)" using inside by simp
  also have "time_cells df ! i = cell_at df (data_start_row + i) time_col"
    using inside by (simp add: time_cells_def)
  finally show ?thesis by simp
qed

subsection \<open>The derived units in exact arithmetic\<close>

text \<open>With exact products, quotients and roundings a row is within a twentieth of a
  second of its time in seconds, and its hours agree with its seconds to a
  thousandth. The binary arithmetic of the program is not part of this statement.\<close>

lemma round_half_even_error: "\<bar>of_int (round_half_even x) - x\<bar> \<le> 1 / 2"
proof -
  define f where "f = \<lfloor>x\<rfloor>"
  define d where "d = x - of_int f"
  have d: "0 \<le> d" "d < 1" unfolding d_def f_def by linarith+
  have x: "x = of_int f + d" by (simp add: d_def)
  consider "d < 1 / 2" | "1 / 2 < d" | "d = 1 / 2" "even f" | "d = 1 / 2" "odd f"
    by fastforce
  then show ?thesis
  proof cases
    case 1
    then have "round_half_even x = f" by (simp add: round_half_even_def Let_def f_def d_def)
    with d 1 x show ?thesis by simp
  next
    case 2
    then have "round_half_even x = f + 1" by (simp add: round_half_even_def Let_def f_def d_def)
    with d 2 x show ?thesis by simp
  next
    case 3
    then have "round_half_even x = f" by (simp add: round_half_even_def Let_def f_def d_def)
    with d 3 x show ?thesis by simp
  next
    case 4
    then have "round_half_even x = f + 1" by (simp add: round_half_even_def Let_def f_def d_def)
    with d 4 x show ?thesis by simp
  qed
qed

lemma py_round_error: "\<bar>py_round x n - x\<bar> \<le> 1 / (2 * 10 ^ n)"
proof -
  define p :: rat where "p = 10 ^ n"
  define k :: rat where "k = of_int (round_half_even (x * p))"
  have pos: "0 < p" unfolding p_def by simp
  have k: "\<bar>k - x * p\<bar> \<le> 1 / 2"
    unfolding k_def by (rule round_half_even_error)
  have r: "py_round x n = k / p"
    unfolding py_round_def p_def k_def ..
  have "x = (x * p) / p" using pos by simp
  then have "k / p - x = (k - x * p) / p"
    by (metis diff_divide_distrib)
  then have "\<bar>k / p - x\<bar> = \<bar>k - x * p\<bar> / p"
    using pos by (simp only: abs_divide abs_of_pos)
  also have "\<dots> \<le> (1 / 2) / p"
    using k pos by (intro divide_right_mono) simp_all
  finally have "\<bar>k / p - x\<bar> \<le> 1 / (2 * p)" by simp
  then show ?thesis unfolding r p_def .
qed

lemma make_row_fields:
  "Well (make_row w t v) = w" "Time_s (make_row w t v) = py_round (t * 60) 1"
  "Time_h (make_row w t v) = py_round (t / 60) 3" "OD (make_row w t v) = py_round v 4"
  by (simp_all add: make_row_def)

lemma make_row_units:
  "\<bar>Time_s (make_row w t v) - t * 60\<bar> \<le> 1 / 10 \<and>
   \<bar>Time_h (make_row w t v) - Time_s (make_row w t v) / 3600\<bar> \<le> 1 / 1000"
proof -
  define a where "a = py_round (t * 60) 1"
  define b where "b = py_round (t / 60) 3"
  define u where "u = t * 60"
  have s: "\<bar>a - u\<bar> \<le> 1 / 20"
    using py_round_error [of "t * 60" 1] unfolding a_def u_def by simp
  have q: "t / 60 = u / 3600" unfolding u_def by simp
  have "\<bar>b - t / 60\<bar> \<le> 1 / 2000"
    using py_round_error [of "t / 60" 3] unfolding b_def by simp
  then have h: "\<bar>b - u / 3600\<bar> \<le> 1 / 2000"
    unfolding q .
  have one: "\<bar>a - u\<bar> \<le> 1 / 10" using s by linarith
  have two: "\<bar>b - a / 3600\<bar> \<le> 1 / 1000" using s h by linarith
  from one two show ?thesis
    unfolding make_row_fields a_def b_def u_def by blast
qed

section \<open>Properties\<close>

text \<open>C1. On the example plate (header row 8 naming A1 and A2 from column 2 on, times
  0, 30 and 60 minutes in column 1 from row 9 on, readings 0.100, 0.150, 0.200 and
  0.110, 0.160, 0.210) the conversion succeeds and writes exactly the six rows
  (A1, 0, 0, 0.1), (A1, 1800, 0.5, 0.15), (A1, 3600, 1, 0.2), (A2, 0, 0, 0.11),
  (A2, 1800, 0.5, 0.16), (A2, 3600, 1, 0.21), in this order.\<close>

theorem example_conversion:
  "convert_frame example_grid = Inr example_rows \<and> length example_rows = 6 \<and>
   convert_bacterial_growth_data (Inr example_grid) (\<lambda>rows. Inr ()) = (True, Some example_rows)"
  by code_simp

text \<open>C2. When the header gives W well names, the time column gives T timepoints and
  every data cell of every well over the T time rows is parseable, \<open>output_data\<close>
  holds exactly W * T rows; when that number is positive the conversion returns them,
  sorted, and they are still W * T.\<close>

theorem complete_grid_row_count:
  assumes "well_names df = Inr names" and "time_minutes df = Inr tm"
    and "\<forall>k<length names. \<forall>i<length tm.
           parseable (cell_at df (data_start_row + i) (data_col_start + k))"
  shows "\<exists>out. output_data df = Inr out \<and> length out = length names * length tm \<and>
           (0 < length names * length tm \<longrightarrow>
              convert_frame df = Inr (sort_values out) \<and>
              length (sort_values out) = length names * length tm)"
proof -
  let ?out = "concat (map (contribution df tm) (enumerate 0 names))"
  have out: "output_data df = Inr ?out"
    using assms(1,2) by (rule output_data_eq)
  have each: "\<forall>p \<in> set (enumerate 0 names). length (contribution df tm p) = length tm"
  proof
    fix p assume "p \<in> set (enumerate 0 names)"
    then have k: "fst p < length names" by (auto simp: in_set_enumerate_eq)
    have "length (kept df (fst p) (length tm)) = length tm"
      using assms(3) k by (intro kept_all_parseable) simp
    moreover have "contribution df tm (fst p, snd p) = well_rows (snd p) tm (kept df (fst p) (length tm))"
      using assms(1,2) k by (rule contribution_at)
    ultimately show "length (contribution df tm p) = length tm"
      by (simp add: length_well_rows)
  qed
  have len: "length ?out = length names * length tm"
    using length_concat_const [OF each] by simp
  have "0 < length names * length tm \<longrightarrow> convert_frame df = Inr (sort_values ?out)"
    using out len by (auto intro: convert_frame_nonempty)
  with out len show ?thesis by simp
qed

theorem complete_grid_row_count_witness:
  "well_names example_grid = Inr [''A1'', ''A2''] \<and>
   time_minutes example_grid = Inr [0, 30, 60] \<and>
   list_all (\<lambda>k. list_all (\<lambda>i. parseable
      (cell_at example_grid (data_start_row + i) (data_col_start + k))) [0 ..< 3]) [0 ..< 2] \<and>
   (\<exists>out. output_data example_grid = Inr out \<and> length out = 6 \<and>
      convert_frame example_grid = Inr (sort_values out))"
proof -
  have n: "well_names example_grid = Inr [''A1'', ''A2'']" by code_simp
  have t: "time_minutes example_grid = Inr [0, 30, 60]" by code_simp
  have full: "list_all (\<lambda>k. list_all (\<lambda>i. parseable
          (cell_at example_grid (data_start_row + i) (data_col_start + k))) [0 ..< 3]) [0 ..< 2]"
    by code_simp
  then have c: "\<forall>k<2. \<forall>i<3.
      parseable (cell_at example_grid (data_start_row + i) (data_col_start + k))"
    by (simp only: all_below_iff)
  then have c': "\<forall>k<length [''A1'', ''A2'']. \<forall>i<length [0, 30, 60 :: rat].
      parseable (cell_at example_grid (data_start_row + i) (data_col_start + k))"
    by simp
  obtain out where "output_data example_grid = Inr out" "length out = 6"
      "convert_frame example_grid = Inr (sort_values out)"
    using complete_grid_row_count [OF n t c'] by auto
  with n t full show ?thesis by blast
qed

text \<open>C3. With T timepoints, a well whose column has fewer than T parseable cells over
  the T time rows appends no row: \<open>output_data\<close> is what the other wells append.
  When some other well is complete, the conversion does not raise and returns the
  sorted rows of the other wells, which are not empty.\<close>

theorem partial_well_excluded:
  assumes "well_names df = Inr names" and "time_minutes df = Inr tm" and "k < length names"
    and "length (filter parseable (od_cells df k (length tm))) < length tm"
  shows "contribution df tm (k, names ! k) = [] \<and>
         output_data df =
           Inr (concat (map (contribution df tm) (filter (\<lambda>p. fst p \<noteq> k) (enumerate 0 names)))) \<and>
         (\<forall>j<length names.
            j \<noteq> k \<and> (\<forall>i<length tm.
               parseable (cell_at df (data_start_row + i) (data_col_start + j))) \<longrightarrow>
            (\<exists>rows. convert_frame df = Inr rows \<and> rows \<noteq> [] \<and>
               rows = sort_values (concat (map (contribution df tm)
                        (filter (\<lambda>p. fst p \<noteq> k) (enumerate 0 names))))))"
proof -
  let ?others = "filter (\<lambda>p. fst p \<noteq> k) (enumerate 0 names)"
  let ?out = "concat (map (contribution df tm) ?others)"
  have short: "length (kept df k (length tm)) \<noteq> length tm"
    using assms(4) by (simp add: kept_length)
  have none: "contribution df tm (k, w) = []" for w
    using contribution_at [OF assms(1,2,3)] short by (simp add: well_rows_short)
  have "\<forall>p \<in> set (enumerate 0 names). \<not> fst p \<noteq> k \<longrightarrow> contribution df tm p = []"
    using none by (metis prod.collapse)
  then have "?out = concat (map (contribution df tm) (enumerate 0 names))"
    by (rule concat_map_filter_empty)
  then have out: "output_data df = Inr ?out"
    using output_data_eq [OF assms(1,2)] by simp
  have "\<exists>rows. convert_frame df = Inr rows \<and> rows \<noteq> [] \<and> rows = sort_values ?out"
    if j: "j < length names" "j \<noteq> k"
      and full: "\<forall>i<length tm. parseable (cell_at df (data_start_row + i) (data_col_start + j))"
    for j
  proof -
    have "length (kept df j (length tm)) = length tm"
      using full by (rule kept_all_parseable)
    then have "length (contribution df tm (j, names ! j)) = length tm"
      using contribution_at [OF assms(1,2) j(1)] by (simp add: length_well_rows)
    moreover have "0 < length tm" using assms(4) by arith
    ultimately have "contribution df tm (j, names ! j) \<noteq> []" by auto
    moreover have "(j, names ! j) \<in> set ?others"
      using j by (simp add: in_set_enumerate_eq)
    ultimately have ne: "?out \<noteq> []" by (rule concat_map_nonempty [rotated])
    then have "convert_frame df = Inr (sort_values ?out)"
      using out by (intro convert_frame_nonempty)
    moreover have "sort_values ?out \<noteq> []"
      using ne by (metis length_sort_values length_0_conv)
    ultimately show ?thesis by simp
  qed
  with none out show ?thesis by blast
qed

theorem partial_well_excluded_witness:
  "well_names gap_grid = Inr [''A1'', ''A2''] \<and> time_minutes gap_grid = Inr [0, 30, 60] \<and>
   length (filter parseable (od_cells gap_grid 1 3)) < 3 \<and>
   list_all (\<lambda>i. parseable (cell_at gap_grid (data_start_row + i) (data_col_start + 0))) [0 ..< 3] \<and>
   contribution gap_grid [0, 30, 60] (1, ''A2'') = [] \<and>
   (\<exists>rows. convert_frame gap_grid = Inr rows \<and> rows \<noteq> [])"
proof -
  have n: "well_names gap_grid = Inr [''A1'', ''A2'']" by code_simp
  have t: "time_minutes gap_grid = Inr [0, 30, 60]" by code_simp
  have k: "1 < length [''A1'', ''A2'']" by simp
  have g: "length (filter parseable (od_cells gap_grid 1 (length [0, 30, 60 :: rat]))) < length [0, 30, 60 :: rat]"
    by code_simp
  have full: "list_all (\<lambda>i. parseable (cell_at gap_grid (data_start_row + i) (data_col_start + 0))) [0 ..< 3]"
    by code_simp
  then have c: "\<forall>i<3. parseable (cell_at gap_grid (data_start_row + i) (data_col_start + 0))"
    by (simp only: all_below_iff)
  then have c': "0 \<noteq> (1::nat) \<and> (\<forall>i<length [0, 30, 60 :: rat].
      parseable (cell_at gap_grid (data_start_row + i) (data_col_start + 0)))"
    by simp
  have j: "0 < length [''A1'', ''A2'']" by simp
  have g3: "length (filter parseable (od_cells gap_grid 1 3)) < 3"
    by code_simp
  note r = partial_well_excluded [OF n t k g]
  have e: "contribution gap_grid [0, 30, 60] (1, ''A2'') = []"
    using r by simp
  have "\<exists>rows. convert_frame gap_grid = Inr rows \<and> rows \<noteq> []"
    using r [THEN conjunct2, THEN conjunct2, rule_format, OF j c'] by blast
  with n t g3 full e show ?thesis by blast
qed

text \<open>C4. Whenever the grid has a time column, a time list is extracted; and an extracted
  time list is made of the values parsed from a prefix of the time-column cells from row
  9 on, every cell of the prefix is parseable, and the prefix ends at the end of the
  column or right before the first cell that is missing or not parseable, so what comes
  after that cell is left out.\<close>

theorem time_list_longest_parseable_prefix:
  "(time_col < ncols df \<longrightarrow> (\<exists>ts. time_minutes df = Inr ts)) \<and>
   (\<forall>ts. time_minutes df = Inr ts \<longrightarrow>
      length ts \<le> length (time_cells df) \<and>
      map parsed (take (length ts) (time_cells df)) = map Some ts \<and>
      (length ts < length (time_cells df) \<longrightarrow> \<not> parseable (time_cells df ! length ts)))"
proof (intro conjI allI impI)
  assume "time_col < ncols df"
  then show "\<exists>ts. time_minutes df = Inr ts" by (simp add: time_minutes_eq)
next
  fix ts assume ts: "time_minutes df = Inr ts"
  let ?vs = "map parsed (time_cells df)"
  let ?P = "\<lambda>v::rat option. v \<noteq> None"
  have shape: "map Some ts = takeWhile ?P ?vs \<and> length ts = length (takeWhile ?P ?vs)"
  proof (cases "time_col < ncols df")
    case True
    with ts have "ts = map the (takeWhile ?P ?vs)" by (simp add: time_minutes_eq)
    then show ?thesis by (simp only: map_Some_the_takeWhile length_map)
  next
    case False
    from time_minutes_without_column [OF False ts] show ?thesis by simp
  qed
  then have len: "length ts = length (takeWhile ?P ?vs)" ..
  show "length ts \<le> length (time_cells df)"
    using length_takeWhile_le [of ?P ?vs] len by simp
  have "map Some ts = take (length ts) ?vs"
    using shape by (simp only: takeWhile_eq_take [symmetric])
  then show "map parsed (take (length ts) (time_cells df)) = map Some ts"
    by (simp add: take_map)
  show "\<not> parseable (time_cells df ! length ts)" if "length ts < length (time_cells df)"
  proof -
    have "length (takeWhile ?P ?vs) < length ?vs" using that len by simp
    then have "\<not> ?P (?vs ! length (takeWhile ?P ?vs))" by (rule nth_length_takeWhile)
    then show ?thesis using that len by (simp add: parseable_def)
  qed
qed

theorem time_list_longest_parseable_prefix_witness:
  "time_col < ncols late_time_grid \<and> time_minutes late_time_grid = Inr [0, 30] \<and>
   length (time_cells late_time_grid) = 4 \<and>
   map parsed (take 2 (time_cells late_time_grid)) = [Some 0, Some 30] \<and>
   \<not> parseable (time_cells late_time_grid ! 2) \<and>
   parsed (time_cells late_time_grid ! 3) = Some 90"
proof -
  have c: "time_col < ncols late_time_grid" by code_simp
  have t: "time_minutes late_time_grid = Inr [0, 30]" by code_simp
  have l: "length (time_cells late_time_grid) = 4" by code_simp
  have later: "parsed (time_cells late_time_grid ! 3) = Some 90" by code_simp
  have lt: "length [0, 30 :: rat] < length (time_cells late_time_grid)" using l by simp
  note r = time_list_longest_parseable_prefix [of late_time_grid, THEN conjunct2, rule_format, OF t]
  have "map parsed (take 2 (time_cells late_time_grid)) = [Some 0, Some 30]"
    using r by (simp add: numeral_2_eq_2)
  moreover have "\<not> parseable (time_cells late_time_grid ! 2)"
    using r [THEN conjunct2, THEN conjunct2, rule_format, OF lt] by (simp add: numeral_2_eq_2)
  ultimately show ?thesis using c t l later by blast
qed

text \<open>C6, as amended. The rows the conversion returns are the emitted rows sorted by
  well name (by code point) and then by \<open>Time_s\<close>: the sequence never decreases in
  (well, \<open>Time_s\<close>), it has as many rows as were emitted, and for every key the rows
  bearing it stand in the order in which they were emitted. Two rows can share a key
  only when two header cells give the same well name or two timepoints give the same
  \<open>Time_s\<close>: with distinct well names and distinct \<open>Time_s\<close> values all keys differ.\<close>

theorem output_is_stable_sort:
  assumes "output_data df = Inr out" and "convert_frame df = Inr rows"
  shows "sorted_wrt (\<lambda>a b. Well a < Well b \<or> (Well a = Well b \<and> Time_s a \<le> Time_s b)) rows \<and>
         length rows = length out \<and>
         (\<forall>key. filter (\<lambda>r. sort_key_of r = key) rows = filter (\<lambda>r. sort_key_of r = key) out) \<and>
         (\<forall>names tm. well_names df = Inr names \<and> time_minutes df = Inr tm \<and>
              distinct names \<and> distinct (map (\<lambda>t. py_round (t * 60) 1) tm) \<longrightarrow>
              distinct (map sort_key_of rows))"
proof -
  have rows: "rows = sort_values out" using assms by (rule convert_frame_sorted)
  have stable: "filter (\<lambda>r. sort_key_of r = key) rows = filter (\<lambda>r. sort_key_of r = key) out"
    for key
    unfolding rows sort_values_def by (rule sort_key_stable)
  have "distinct (map sort_key_of rows)"
    if n: "well_names df = Inr names" and t: "time_minutes df = Inr tm"
      and dn: "distinct names" and dt: "distinct (map (\<lambda>t. py_round (t * 60) 1) tm)"
    for names tm
  proof -
    have "out = concat (map (contribution df tm) (enumerate 0 names))"
      using output_data_eq [OF n t] assms(1) by simp
    moreover have "distinct (map sort_key_of (concat (map (contribution df tm) (enumerate 0 names))))"
      using dn keys_contribution [OF dt] by (intro distinct_keys_concat) simp_all
    ultimately show ?thesis by (simp add: rows distinct_keys_sort_values)
  qed
  then show ?thesis
    using stable by (simp add: rows sorted_sort_values)
qed

theorem output_is_stable_sort_witness:
  "output_data twin_grid = Inr twin_rows \<and> convert_frame twin_grid = Inr twin_rows \<and>
   sorted_wrt (\<lambda>a b. Well a < Well b \<or> (Well a = Well b \<and> Time_s a \<le> Time_s b)) twin_rows \<and>
   filter (\<lambda>r. sort_key_of r = (''A1'', 0)) twin_rows = twin_rows \<and>
   well_names example_grid = Inr [''A1'', ''A2''] \<and>
   time_minutes example_grid = Inr [0, 30, 60] \<and>
   distinct [''A1'', ''A2''] \<and> distinct (map (\<lambda>t. py_round (t * 60) 1) [0, 30, 60]) \<and>
   distinct (map sort_key_of example_rows)"
proof -
  have o: "output_data twin_grid = Inr twin_rows" by code_simp
  have c: "convert_frame twin_grid = Inr twin_rows" by code_simp
  have k: "filter (\<lambda>r. sort_key_of r = (''A1'', 0)) twin_rows = twin_rows" by code_simp
  have s: "sorted_wrt (\<lambda>a b. Well a < Well b \<or> (Well a = Well b \<and> Time_s a \<le> Time_s b)) twin_rows"
    using output_is_stable_sort [OF o c] by blast
  have o': "output_data example_grid = Inr example_rows" by code_simp
  have c': "convert_frame example_grid = Inr example_rows" by code_simp
  have n: "well_names example_grid = Inr [''A1'', ''A2'']" by code_simp
  have t: "time_minutes example_grid = Inr [0, 30, 60]" by code_simp
  have dn: "distinct [''A1'', ''A2'']" by simp
  have dt: "distinct (map (\<lambda>t. py_round (t * 60) 1) [0, 30, 60])" by code_simp
  have "distinct (map sort_key_of example_rows)"
    using output_is_stable_sort [OF o' c'] n t dn dt by blast
  with o c s k n t dn dt show ?thesis by blast
qed

text \<open>The claim C6 as it was stated allows equal keys only for duplicate timepoints.
  On the plate with two columns headed A1 the only timepoint is 0, and both rows have
  the key (A1, 0).\<close>

theorem equal_keys_without_duplicate_times:
  "output_data twin_grid = Inr twin_rows \<and> convert_frame twin_grid = Inr twin_rows \<and>
   time_minutes twin_grid = Inr [0] \<and> distinct [0 :: rat] \<and>
   \<not> distinct (map sort_key_of twin_rows)"
  by code_simp

text \<open>C7. When no well name is extracted, or no timepoint is extracted, or no row is
  emitted, the call on that DataFrame returns \<open>False\<close> and writes nothing, whatever
  the writer would do; and no call ever returns \<open>True\<close> with an empty file.\<close>

theorem empty_output_is_failure:
  "((\<forall>x xs. well_names df \<noteq> Inr (x # xs)) \<or> (\<forall>t ts. time_minutes df \<noteq> Inr (t # ts)) \<or>
    (\<forall>r rs. output_data df \<noteq> Inr (r # rs)) \<longrightarrow>
      convert_bacterial_growth_data (Inr df) to_csv = (False, None)) \<and>
   convert_bacterial_growth_data read_excel to_csv \<noteq> (True, Some [])"
proof (intro conjI impI)
  assume "(\<forall>x xs. well_names df \<noteq> Inr (x # xs)) \<or> (\<forall>t ts. time_minutes df \<noteq> Inr (t # ts)) \<or>
    (\<forall>r rs. output_data df \<noteq> Inr (r # rs))"
  then have "\<forall>r rs. output_data df \<noteq> Inr (r # rs)"
    using output_data_no_wells output_data_no_times by blast
  then obtain e where "convert_frame df = Inl e"
    using convert_frame_no_rows by blast
  then show "convert_bacterial_growth_data (Inr df) to_csv = (False, None)"
    by (rule convert_failure)
next
  show "convert_bacterial_growth_data read_excel to_csv \<noteq> (True, Some [])"
    using convert_frame_not_empty
    by (auto simp: convert_bacterial_growth_data_def split: sum.splits)
qed

theorem empty_output_is_failure_witness:
  "time_minutes (replicate 9 blank_row) = Inr [] \<and>
   convert_bacterial_growth_data (Inr (replicate 9 blank_row)) (\<lambda>rows. Inr ()) = (False, None) \<and>
   well_names (replicate 9 blank_row) = Inr []"
proof -
  have t: "time_minutes (replicate 9 blank_row) = Inr []" by code_simp
  have n: "well_names (replicate 9 blank_row) = Inr []" by code_simp
  have "\<forall>t ts. time_minutes (replicate 9 blank_row) \<noteq> Inr (t # ts)"
    using t by simp
  then have "convert_bacterial_growth_data (Inr (replicate 9 blank_row)) (\<lambda>rows. Inr ()) = (False, None)"
    using empty_output_is_failure [of "replicate 9 blank_row" "\<lambda>rows. Inr ()", THEN conjunct1] by blast
  with t n show ?thesis by blast
qed



text \<open>C9. On a file that \<open>read_csv\<close> can read, \<open>validate_csv_output\<close> returns
  \<open>False\<close> exactly when one of Well, Time\_s, Time\_h, OD is not among the columns or
  one of the columns Time\_s, Time\_h, OD has a dtype that is not numeric; otherwise it
  returns \<open>True\<close>.\<close>

theorem validate_false_exactly:
  "validate_csv_output (Inr df) = False \<longleftrightarrow>
     (\<exists>col \<in> set required_columns. col \<notin> set (columns df)) \<or>
     (\<exists>col \<in> set [''Time_s'', ''Time_h'', ''OD''].
        \<exists>d. column_dtype df col = Inr d \<and> \<not> is_numeric_dtype d)"
proof (cases "\<forall>col \<in> set required_columns. col \<in> set (columns df)")
  case False
  then have "filter (\<lambda>col. col \<notin> set (columns df)) required_columns \<noteq> []"
    by (simp add: required_present)
  then have "validate_csv_output (Inr df) = False"
    by (simp add: validate_csv_output_def)
  with False show ?thesis by blast
next
  case True
  then have none: "filter (\<lambda>col. col \<notin> set (columns df)) required_columns = []"
    by (simp add: required_present)
  from True obtain ds dh dod where
    s: "map_of df ''Time_s'' = Some ds" "numeric_check df ''Time_s'' = Inr (is_numeric_dtype ds)" and
    h: "map_of df ''Time_h'' = Some dh" "numeric_check df ''Time_h'' = Inr (is_numeric_dtype dh)" and
    od: "map_of df ''OD'' = Some dod" "numeric_check df ''OD'' = Inr (is_numeric_dtype dod)"
    using numeric_check_eq [of "''Time_s''" df] numeric_check_eq [of "''Time_h''" df]
      numeric_check_eq [of "''OD''" df]
    by (auto simp: required_columns_def)
  have "validate_csv_output (Inr df) \<longleftrightarrow>
          is_numeric_dtype ds \<and> is_numeric_dtype dh \<and> is_numeric_dtype dod"
    by (simp add: validate_csv_output_def none s h od)
  moreover have "(\<exists>col \<in> set [''Time_s'', ''Time_h'', ''OD''].
        \<exists>d. column_dtype df col = Inr d \<and> \<not> is_numeric_dtype d) \<longleftrightarrow>
          \<not> (is_numeric_dtype ds \<and> is_numeric_dtype dh \<and> is_numeric_dtype dod)"
    by (auto simp: column_dtype_def s h od)
  ultimately show ?thesis using True by simp
qed

theorem validate_false_exactly_witness:
  "validate_csv_output (Inr example_csv) \<and>
   \<not> validate_csv_output (Inr (tl example_csv)) \<and>
   \<not> validate_csv_output (Inr (example_csv @ [(''Extra'', Object)]) ) = False \<and>
   \<not> validate_csv_output (Inr [(''Well'', Object), (''Time_s'', Object), (''Time_h'', Float64), (''OD'', Float64)])"
proof -
  have "\<not> ((\<exists>col \<in> set required_columns. col \<notin> set (columns example_csv)) \<or>
     (\<exists>col \<in> set [''Time_s'', ''Time_h'', ''OD''].
        \<exists>d. column_dtype example_csv col = Inr d \<and> \<not> is_numeric_dtype d))"
    by (simp add: required_columns_def columns_def example_csv_def column_dtype_def)
  then have a: "validate_csv_output (Inr example_csv)"
    using validate_false_exactly [of example_csv] by blast
  have b: "\<not> validate_csv_output (Inr (tl example_csv))" by code_simp
  have c: "\<not> validate_csv_output (Inr (example_csv @ [(''Extra'', Object)]) ) = False" by code_simp
  have d: "\<not> validate_csv_output (Inr [(''Well'', Object), (''Time_s'', Object), (''Time_h'', Float64), (''OD'', Float64)])"
    by code_simp
  from a b c d show ?thesis by blast
qed

text \<open>C10. For a well that passes the length test of line 115, with timepoints
  \<open>tm\<close> and kept values \<open>ods\<close>: for every i below the number of timepoints, the
  time cell of row 9 + i parses to the i-th timepoint, the cell of the well's column in
  the same row is parseable and parses to the i-th kept value (none was passed over),
  and the row of \<open>output_data\<close> at position i of the well's block (which starts
  after the rows of the accepted wells before it) is the row built from the well's
  name, the i-th timepoint and that value: its \<open>Well\<close> is the name, its \<open>Time_s\<close>
  and \<open>Time_h\<close> are the roundings of the i-th timepoint times 60 and over 60, and
  its \<open>OD\<close> is the rounding of the i-th kept value. The row is among the rows the
  conversion returns. The proof does not look into the arithmetic.\<close>

theorem accepted_well_aligned:
  assumes "well_names df = Inr names" and "time_minutes df = Inr tm" and "k < length names"
    and "od_values df (data_col_start + k) (enumerate 0 tm) = Inr ods"
    and "length ods = length tm"
  shows "\<exists>out. output_data df = Inr out \<and> row_offset df tm k + length tm \<le> length out \<and>
           (0 < length tm \<longrightarrow> convert_frame df = Inr (sort_values out)) \<and>
           (\<forall>i<length tm.
              parsed (cell_at df (data_start_row + i) time_col) = Some (tm ! i) \<and>
              parseable (cell_at df (data_start_row + i) (data_col_start + k)) \<and>
              parsed (cell_at df (data_start_row + i) (data_col_start + k)) = Some (ods ! i) \<and>
              out ! (row_offset df tm k + i) = make_row (names ! k) (tm ! i) (ods ! i) \<and>
              Well (out ! (row_offset df tm k + i)) = names ! k \<and>
              Time_s (out ! (row_offset df tm k + i)) = py_round (tm ! i * 60) 1 \<and>
              Time_h (out ! (row_offset df tm k + i)) = py_round (tm ! i / 60) 3 \<and>
              OD (out ! (row_offset df tm k + i)) = py_round (ods ! i) 4 \<and>
              out ! (row_offset df tm k + i) \<in> set (sort_values out))"
proof -
  let ?ps = "enumerate 0 names"
  let ?out = "concat (map (contribution df tm) ?ps)"
  let ?off = "row_offset df tm k"
  have out: "output_data df = Inr ?out"
    using assms(1,2) by (rule output_data_eq)
  have k: "k < length ?ps" using assms(3) by simp
  have pk: "?ps ! k = (k, names ! k)" using assms(3) by (simp add: nth_enumerate_eq)
  have ods: "ods = kept df k (length tm)"
    using od_values_at [OF assms(1,2,3)] assms(4) by simp
  have block: "contribution df tm (k, names ! k) = well_rows (names ! k) tm ods"
    using assms(4) by (simp add: contribution_def)
  have len: "length (contribution df tm (?ps ! k)) = length tm"
    unfolding pk block using assms(5) by (simp add: length_well_rows)
  have off: "sum_list (map (\<lambda>p. length (contribution df tm p)) (take k ?ps)) = ?off"
    using assms(3) by (intro row_offset_eq) simp
  have bound: "?off + length tm \<le> length ?out"
    using length_concat_ge [OF k, of "contribution df tm"] unfolding off len .
  have row: "?out ! (?off + i) = make_row (names ! k) (tm ! i) (ods ! i)" if "i < length tm" for i
  proof -
    have "?out ! (?off + i) = contribution df tm (?ps ! k) ! i"
      using nth_concat_map [OF k, of i "contribution df tm"] that unfolding off len by simp
    also have "\<dots> = make_row (names ! k) (tm ! i) (ods ! i)"
      unfolding pk block using assms(5) that by (rule nth_well_rows)
    finally show ?thesis .
  qed
  have full: "length (kept df k (length tm)) = length tm"
    using ods assms(5) by simp
  have cell: "parsed (cell_at df (data_start_row + i) (data_col_start + k)) = Some (ods ! i)"
    if "i < length tm" for i
    using kept_complete_nth [OF full that] ods by simp
  have mem: "?out ! (?off + i) \<in> set (sort_values ?out)" if "i < length tm" for i
  proof -
    have "?off + i < length ?out" using bound that by simp
    then have "?out ! (?off + i) \<in> set ?out" by (rule nth_mem)
    then show ?thesis by (simp add: sort_values_def)
  qed
  have sorted: "convert_frame df = Inr (sort_values ?out)" if "0 < length tm"
  proof -
    have "0 < length ?out" using bound that by linarith
    then have "?out \<noteq> []" using length_greater_0_conv by blast
    with out show ?thesis by (rule convert_frame_nonempty)
  qed
  have each: "parsed (cell_at df (data_start_row + i) time_col) = Some (tm ! i) \<and>
              parseable (cell_at df (data_start_row + i) (data_col_start + k)) \<and>
              parsed (cell_at df (data_start_row + i) (data_col_start + k)) = Some (ods ! i) \<and>
              ?out ! (?off + i) = make_row (names ! k) (tm ! i) (ods ! i) \<and>
              Well (?out ! (?off + i)) = names ! k \<and>
              Time_s (?out ! (?off + i)) = py_round (tm ! i * 60) 1 \<and>
              Time_h (?out ! (?off + i)) = py_round (tm ! i / 60) 3 \<and>
              OD (?out ! (?off + i)) = py_round (ods ! i) 4 \<and>
              ?out ! (?off + i) \<in> set (sort_values ?out)"
    if "i < length tm" for i
    using cell [OF that] mem [OF that] row [OF that] time_minutes_nth [OF assms(2) that]
    by (simp add: parseable_def make_row_fields)
  from out bound sorted each show ?thesis by blast
qed

theorem accepted_well_aligned_witness:
  "well_names example_grid = Inr [''A1'', ''A2''] \<and>
   time_minutes example_grid = Inr [0, 30, 60] \<and>
   od_values example_grid (data_col_start + 1) (enumerate 0 [0, 30, 60]) =
     Inr [11 / 100, 16 / 100, 21 / 100] \<and>
   row_offset example_grid [0, 30, 60] 1 = 3 \<and>
   output_data example_grid = Inr example_rows \<and>
   parsed (cell_at example_grid (data_start_row + 1) time_col) = Some 30 \<and>
   parsed (cell_at example_grid (data_start_row + 1) (data_col_start + 1)) = Some (16 / 100) \<and>
   example_rows ! (3 + 1) = make_row ''A2'' 30 (16 / 100) \<and>
   Well (example_rows ! (3 + 1)) = ''A2'' \<and>
   Time_s (example_rows ! (3 + 1)) = 1800 \<and>
   OD (example_rows ! (3 + 1)) = 16 / 100"
proof -
  have n: "well_names example_grid = Inr [''A1'', ''A2'']" by code_simp
  have t: "time_minutes example_grid = Inr [0, 30, 60]" by code_simp
  have k: "1 < length [''A1'', ''A2'']" by simp
  have o: "od_values example_grid (data_col_start + 1) (enumerate 0 [0, 30, 60]) =
     Inr [11 / 100, 16 / 100, 21 / 100]" by code_simp
  have l: "length [11 / 100, 16 / 100, 21 / 100 :: rat] = length [0, 30, 60 :: rat]" by simp
  have off: "row_offset example_grid [0, 30, 60] 1 = 3" by code_simp
  have ex: "output_data example_grid = Inr example_rows" by code_simp
  have i: "1 < length [0, 30, 60 :: rat]" by simp
  have s: "Time_s (example_rows ! (3 + 1)) = 1800" by code_simp
  have d: "OD (example_rows ! (3 + 1)) = 16 / 100" by code_simp
  obtain out where out: "output_data example_grid = Inr out"
    and rows: "\<forall>i<length [0, 30, 60 :: rat].
      parsed (cell_at example_grid (data_start_row + i) time_col) = Some ([0, 30, 60] ! i) \<and>
      parseable (cell_at example_grid (data_start_row + i) (data_col_start + 1)) \<and>
      parsed (cell_at example_grid (data_start_row + i) (data_col_start + 1)) =
        Some ([11 / 100, 16 / 100, 21 / 100] ! i) \<and>
      out ! (row_offset example_grid [0, 30, 60] 1 + i) =
        make_row ([''A1'', ''A2''] ! 1) ([0, 30, 60] ! i) ([11 / 100, 16 / 100, 21 / 100] ! i) \<and>
      Well (out ! (row_offset example_grid [0, 30, 60] 1 + i)) = [''A1'', ''A2''] ! 1 \<and>
      Time_s (out ! (row_offset example_grid [0, 30, 60] 1 + i)) = py_round ([0, 30, 60] ! i * 60) 1 \<and>
      Time_h (out ! (row_offset example_grid [0, 30, 60] 1 + i)) = py_round ([0, 30, 60] ! i / 60) 3 \<and>
      OD (out ! (row_offset example_grid [0, 30, 60] 1 + i)) =
        py_round ([11 / 100, 16 / 100, 21 / 100] ! i) 4 \<and>
      out ! (row_offset example_grid [0, 30, 60] 1 + i) \<in> set (sort_values out)"
    using accepted_well_aligned [OF n t k o l] by blast
  have same: "out = example_rows" using out ex by simp
  have "parsed (cell_at example_grid (data_start_row + 1) time_col) = Some 30 \<and>
    parsed (cell_at example_grid (data_start_row + 1) (data_col_start + 1)) = Some (16 / 100) \<and>
    example_rows ! (3 + 1) = make_row ''A2'' 30 (16 / 100) \<and>
    Well (example_rows ! (3 + 1)) = ''A2''"
    using rows [rule_format, OF i] unfolding same off by (simp add: make_row_fields)
  with n t o off ex s d show ?thesis by blast
qed

end
